theory Spec2Isabelle
  imports Main "HOL-Library.Multiset"
begin

section \<open>The data layer: class DB over SQLite\<close>

text \<open>
  The three tables of \<^verbatim>\<open>DB._ensure_schema\<close>, one record per row, columns in the
  order of the \<^verbatim>\<open>CREATE TABLE\<close> statements. An \<^verbatim>\<open>INTEGER\<close> column is an
  \<open>int\<close> (SQLite's 64-bit limit on row ids is not reached by any property below), a
  \<^verbatim>\<open>TEXT\<close> column a \<open>string\<close>. \<^verbatim>\<open>items.room_id\<close> has no \<^verbatim>\<open>NOT NULL\<close>, so it is
  an \<open>int option\<close> with \<open>None\<close> for SQL \<^verbatim>\<open>NULL\<close>. \<^verbatim>\<open>progress.seen_at\<close> defaults
  to \<^verbatim>\<open>CURRENT_TIMESTAMP\<close>: the wall clock read by SQLite at the insert, taken here as
  a parameter \<open>now\<close> of the operation that inserts.
\<close>

record room =
  r_id :: int
  r_name :: string
  r_description :: string

record item =
  i_id :: int
  i_room_id :: "int option"
  i_name :: string
  i_hint :: string
  i_image_path :: string

record progress =
  p_id :: int
  p_item_id :: int
  p_seen_at :: nat
  p_note :: string

text \<open>
  The connection \<^verbatim>\<open>self.conn\<close>. A table is the list of its rows in rowid order
  (every insert of the program goes through \<^verbatim>\<open>AUTOINCREMENT\<close>, so a new row has the
  largest id and is appended). \<open>*_seq\<close> is the largest id ever handed out for the
  table (SQLite's \<^verbatim>\<open>sqlite_sequence\<close>). \<open>foreign_keys\<close> is the per-connection
  setting \<^verbatim>\<open>PRAGMA foreign_keys\<close>: SQLite enforces a \<^verbatim>\<open>FOREIGN KEY\<close> clause, and so
  runs its \<^verbatim>\<open>ON DELETE CASCADE\<close> action, only on a connection where the setting is on.
\<close>

record DB =
  rooms_tbl :: "room list"
  items_tbl :: "item list"
  progress_tbl :: "progress list"
  rooms_seq :: int
  items_seq :: int
  progress_seq :: int
  foreign_keys :: bool

datatype py_error = IntegrityError | IndexError

text \<open>
  \<^verbatim>\<open>DB.__init__\<close> on a new database file: \<^verbatim>\<open>sqlite3.connect\<close> followed by
  \<^verbatim>\<open>_ensure_schema\<close>. The three tables are created empty. Nothing in the program
  executes \<^verbatim>\<open>PRAGMA foreign_keys = ON\<close>, so the connection keeps SQLite's default,
  which is off.
\<close>

definition DB_init :: DB where
  "DB_init = \<lparr>rooms_tbl = [], items_tbl = [], progress_tbl = [],
              rooms_seq = 0, items_seq = 0, progress_seq = 0, foreign_keys = False\<rparr>"

text \<open>\<^verbatim>\<open>DB.add_room\<close>: \<^verbatim>\<open>name\<close> is \<^verbatim>\<open>UNIQUE\<close>; a duplicate raises
  \<^verbatim>\<open>sqlite3.IntegrityError\<close>. Returns \<^verbatim>\<open>cur.lastrowid\<close>.\<close>

definition add_room :: "DB \<Rightarrow> string \<Rightarrow> string \<Rightarrow> py_error + (int \<times> DB)" where
  "add_room d name description =
     (if name \<in> set (map r_name (rooms_tbl d)) then Inl IntegrityError
      else let rid = rooms_seq d + 1 in
        Inr (rid, d\<lparr>rooms_tbl := rooms_tbl d @ [\<lparr>r_id = rid, r_name = name, r_description = description\<rparr>],
                    rooms_seq := rid\<rparr>))"

text \<open>\<^verbatim>\<open>DB.list_rooms\<close>: \<^verbatim>\<open>SELECT id, name, description FROM rooms ORDER BY id\<close>.\<close>

definition list_rooms :: "DB \<Rightarrow> room list" where
  "list_rooms d = sort_key r_id (rooms_tbl d)"

text \<open>
  \<^verbatim>\<open>DB.delete_room\<close>: \<^verbatim>\<open>DELETE FROM rooms WHERE id = ?\<close>. The rows of \<^verbatim>\<open>items\<close>
  that reference the room are removed by the \<^verbatim>\<open>ON DELETE CASCADE\<close> action of the
  schema exactly when the connection enforces foreign keys.
\<close>

definition delete_room :: "DB \<Rightarrow> int \<Rightarrow> DB" where
  "delete_room d room_id =
     d\<lparr>rooms_tbl := filter (\<lambda>r. r_id r \<noteq> room_id) (rooms_tbl d),
       items_tbl := (if foreign_keys d
                     then filter (\<lambda>it. i_room_id it \<noteq> Some room_id) (items_tbl d)
                     else items_tbl d)\<rparr>"

text \<open>
  \<^verbatim>\<open>DB.add_item\<close>: a plain insert. The reference to \<^verbatim>\<open>rooms(id)\<close> is checked only
  when the connection enforces foreign keys (a \<^verbatim>\<open>NULL\<close> reference always passes).
\<close>

definition add_item :: "DB \<Rightarrow> int option \<Rightarrow> string \<Rightarrow> string \<Rightarrow> string \<Rightarrow> py_error + (int \<times> DB)" where
  "add_item d room_id name hint image_path =
     (if foreign_keys d \<and> (case room_id of None \<Rightarrow> False
                                 | Some r \<Rightarrow> r \<notin> set (map r_id (rooms_tbl d)))
      then Inl IntegrityError
      else let iid = items_seq d + 1 in
        Inr (iid, d\<lparr>items_tbl := items_tbl d @
                       [\<lparr>i_id = iid, i_room_id = room_id, i_name = name, i_hint = hint,
                         i_image_path = image_path\<rparr>],
                    items_seq := iid\<rparr>))"

text \<open>
  \<^verbatim>\<open>DB.list_items\<close>:
  \<^verbatim>\<open>SELECT id, name, hint, image_path FROM items WHERE room_id = ? ORDER BY id\<close>.
  The parameter is bound as it is passed; Python's \<^verbatim>\<open>None\<close> is bound as \<^verbatim>\<open>NULL\<close>,
  and in SQL the comparison \<^verbatim>\<open>room_id = NULL\<close> is true of no row (not even of a row
  whose \<^verbatim>\<open>room_id\<close> is \<^verbatim>\<open>NULL\<close>). The result rows have four columns.
\<close>

definition sql_eq :: "int option \<Rightarrow> int option \<Rightarrow> bool" where
  "sql_eq a b = (case (a, b) of (Some x, Some y) \<Rightarrow> x = y | _ \<Rightarrow> False)"

definition item_columns :: "item \<Rightarrow> int \<times> string \<times> string \<times> string" where
  "item_columns it = (i_id it, i_name it, i_hint it, i_image_path it)"

definition list_items :: "DB \<Rightarrow> int option \<Rightarrow> (int \<times> string \<times> string \<times> string) list" where
  "list_items d room_id =
     map item_columns
       (sort_key i_id (filter (\<lambda>it. sql_eq (i_room_id it) room_id) (items_tbl d)))"

text \<open>\<^verbatim>\<open>DB.delete_item\<close>: \<^verbatim>\<open>DELETE FROM items WHERE id = ?\<close>.\<close>

definition delete_item :: "DB \<Rightarrow> int \<Rightarrow> DB" where
  "delete_item d item_id = d\<lparr>items_tbl := filter (\<lambda>it. i_id it \<noteq> item_id) (items_tbl d)\<rparr>"

text \<open>\<^verbatim>\<open>DB.log_seen\<close>: \<^verbatim>\<open>INSERT INTO progress (item_id, note) VALUES (?, ?)\<close>;
  \<^verbatim>\<open>id\<close> and \<^verbatim>\<open>seen_at\<close> are filled in by SQLite.\<close>

definition log_seen :: "DB \<Rightarrow> nat \<Rightarrow> int \<Rightarrow> string \<Rightarrow> DB" where
  "log_seen d now item_id note =
     (let pid = progress_seq d + 1 in
        d\<lparr>progress_tbl := progress_tbl d @
             [\<lparr>p_id = pid, p_item_id = item_id, p_seen_at = now, p_note = note\<rparr>],
          progress_seq := pid\<rparr>)"

section \<open>The source of randomness and \<^verbatim>\<open>random.shuffle\<close>\<close>

text \<open>
  The module \<^verbatim>\<open>random\<close> keeps a hidden global state. Here it is explicit: \<open>src\<close> is
  the sequence of raw draws and \<open>pos\<close> the number of draws consumed. \<open>randbelow n\<close>
  returns a number below \<open>n\<close> and advances the state.
\<close>

record rng =
  src :: "nat \<Rightarrow> nat"
  pos :: nat

definition randbelow :: "nat \<Rightarrow> rng \<Rightarrow> nat \<times> rng" where
  "randbelow n g = (src g (pos g) mod n, g\<lparr>pos := Suc (pos g)\<rparr>)"

text \<open>
  \<^verbatim>\<open>random.shuffle(x)\<close> of the standard library:
  \<^verbatim>\<open>for i in reversed(range(1, len(x))): j = randbelow(i + 1); x[i], x[j] = x[j], x[i]\<close>.
  \<open>shuffle_from i\<close> runs the loop from index \<open>i\<close> down to 1.
\<close>

fun shuffle_from :: "nat \<Rightarrow> 'a list \<Rightarrow> rng \<Rightarrow> 'a list \<times> rng" where
  "shuffle_from 0 x g = (x, g)"
| "shuffle_from (Suc i) x g =
     (case randbelow (Suc i + 1) g of
        (j, g') \<Rightarrow> shuffle_from i (x[Suc i := x ! j, j := x ! Suc i]) g')"

definition shuffle :: "'a list \<Rightarrow> rng \<Rightarrow> 'a list \<times> rng" where
  "shuffle x g = shuffle_from (length x - 1) x g"

section \<open>The generator \<^verbatim>\<open>practice_generator\<close>\<close>

text \<open>
  The query at the head of the generator body. \<^verbatim>\<open>if rooms:\<close> is Python truthiness:
  false for \<^verbatim>\<open>None\<close> and for the empty list, and then every row of \<^verbatim>\<open>items\<close> is
  selected (the second case below); it is true exactly for a non-empty list (the first
  case). \<^verbatim>\<open>room_id IN (?, ...)\<close> is true of no row whose \<^verbatim>\<open>room_id\<close> is
  \<^verbatim>\<open>NULL\<close>. Neither query has an \<^verbatim>\<open>ORDER BY\<close>; the rows come in table order.
\<close>

definition fetch_items :: "DB \<Rightarrow> int list option \<Rightarrow> item list" where
  "fetch_items d rooms =
     (case rooms of
        Some (r # rs) \<Rightarrow>
          filter (\<lambda>it. case i_room_id it of None \<Rightarrow> False | Some x \<Rightarrow> x \<in> set (r # rs))
            (items_tbl d)
      | _ \<Rightarrow> items_tbl d)"

text \<open>
  A Python generator object is in one of three states. \<open>Created\<close>: the call
  \<^verbatim>\<open>practice_generator(db, rooms, shuffle, repeat)\<close> has bound its arguments and no
  line of the body has run. \<open>Suspended\<close>: the body stands at \<^verbatim>\<open>yield it\<close>, with the
  local \<^verbatim>\<open>items\<close>, the part of \<^verbatim>\<open>sequence\<close> the \<^verbatim>\<open>for\<close> loop has not reached, and
  the two flags. \<open>Closed\<close>: the body has returned.
\<close>

datatype generator =
    Created "int list option" bool bool
  | Suspended "item list" "item list" bool bool
  | Closed

datatype signal = Yield item | StopIteration

text \<open>The first two statements of the \<^verbatim>\<open>while True\<close> body:
  \<^verbatim>\<open>sequence = list(items)\<close> and, if \<^verbatim>\<open>shuffle\<close>, \<^verbatim>\<open>random.shuffle(sequence)\<close>.\<close>

definition new_round :: "item list \<Rightarrow> bool \<Rightarrow> rng \<Rightarrow> item list \<times> rng" where
  "new_round its sh g = (if sh then shuffle its g else (its, g))"

text \<open>
  Running the body from inside the \<^verbatim>\<open>for\<close> loop, with \<open>sq\<close> the rest of
  \<^verbatim>\<open>sequence\<close>, up to the next \<^verbatim>\<open>yield\<close> or to the return. When the \<^verbatim>\<open>for\<close> loop
  is done and \<^verbatim>\<open>repeat\<close> is set, \<^verbatim>\<open>while True\<close> starts another round; nothing in the
  loop itself bounds the number of rounds without a \<^verbatim>\<open>yield\<close>, so the function is
  partial: \<open>None\<close> stands for a body that runs forever.
\<close>

partial_function (option) resume ::
  "item list \<Rightarrow> bool \<Rightarrow> bool \<Rightarrow> item list \<Rightarrow> rng \<Rightarrow> (signal \<times> generator \<times> rng) option" where
  "resume its sh rp sq g =
     (case sq of
        it # rest \<Rightarrow> Some (Yield it, Suspended its rest sh rp, g)
      | [] \<Rightarrow> if \<not> rp then Some (StopIteration, Closed, g)
              else (case new_round its sh g of (sq', g') \<Rightarrow> resume its sh rp sq' g'))"

declare resume.simps [code]

text \<open>
  \<^verbatim>\<open>next(gen)\<close>. The first call runs the body from its first line: the query is
  executed against the database as it is at that moment, and an empty result returns
  at once (\<^verbatim>\<open>if not items: return\<close>). \<^verbatim>\<open>next\<close> on a closed generator raises
  \<^verbatim>\<open>StopIteration\<close> again.
\<close>

definition gen_next :: "DB \<Rightarrow> rng \<Rightarrow> generator \<Rightarrow> (signal \<times> generator \<times> rng) option" where
  "gen_next d g gen =
     (case gen of
        Created rooms sh rp \<Rightarrow>
          (let its = fetch_items d rooms in
           if its = [] then Some (StopIteration, Closed, g)
           else (case new_round its sh g of (sq, g') \<Rightarrow> resume its sh rp sq g'))
      | Suspended its rest sh rp \<Rightarrow> resume its sh rp rest g
      | Closed \<Rightarrow> Some (StopIteration, Closed, g))"

definition practice_generator :: "int list option \<Rightarrow> bool \<Rightarrow> bool \<Rightarrow> generator" where
  "practice_generator rooms sh rp = Created rooms sh rp"

text \<open>
  Two ways of consuming a generator. \<open>consume\<close> is \<^verbatim>\<open>list(gen)\<close>: it calls
  \<^verbatim>\<open>next\<close> until \<^verbatim>\<open>StopIteration\<close>, and does not return on an endless generator.
  \<open>pull n\<close> is \<^verbatim>\<open>list(itertools.islice(gen, n))\<close>: at most \<open>n\<close> calls.
\<close>

partial_function (option) consume_acc ::
  "DB \<Rightarrow> item list \<Rightarrow> rng \<Rightarrow> generator \<Rightarrow> (item list \<times> rng) option" where
  "consume_acc d acc g gen =
     (case gen_next d g gen of
        None \<Rightarrow> None
      | Some (StopIteration, gen', g') \<Rightarrow> Some (rev acc, g')
      | Some (Yield it, gen', g') \<Rightarrow> consume_acc d (it # acc) g' gen')"

declare consume_acc.simps [code]

definition consume :: "DB \<Rightarrow> rng \<Rightarrow> generator \<Rightarrow> (item list \<times> rng) option" where
  "consume d g gen = consume_acc d [] g gen"

fun pull :: "nat \<Rightarrow> DB \<Rightarrow> rng \<Rightarrow> generator \<Rightarrow> (item list \<times> generator \<times> rng) option" where
  "pull 0 d g gen = Some ([], gen, g)"
| "pull (Suc n) d g gen =
     (case gen_next d g gen of
        None \<Rightarrow> None
      | Some (StopIteration, gen', g') \<Rightarrow> Some ([], gen', g')
      | Some (Yield it, gen', g') \<Rightarrow>
          (case pull n d g' gen' of
             None \<Rightarrow> None
           | Some (out, gen'', g'') \<Rightarrow> Some (it # out, gen'', g'')))"

section \<open>The practice controls of \<^verbatim>\<open>MemoryPalaceApp\<close>\<close>

text \<open>
  The attributes of the window that the practice controls read or write: \<^verbatim>\<open>self.db\<close>,
  the cached room rows \<^verbatim>\<open>self.rooms\<close>, the tuple \<^verbatim>\<open>rooms_listbox.curselection()\<close>
  of selected listbox indices, \<^verbatim>\<open>self.practice_gen\<close> (\<open>None\<close> for Python's
  \<^verbatim>\<open>None\<close>), the text of the status label (ready, practising, stopped, or "last
  item:" with a name) and what the canvas shows. For the canvas only the row on
  display is kept; whether its image file can be drawn is not.
\<close>

datatype status = Ready | Practicing | Stopped | LastItem string

datatype canvas = Blank | PracticeView item

record app =
  db :: DB
  rooms :: "room list"
  curselection :: "nat list"
  practice_gen :: "generator option"
  practice_status :: status
  canvas :: canvas

text \<open>\<^verbatim>\<open>MemoryPalaceApp.__init__\<close>, with \<^verbatim>\<open>refresh_rooms\<close> filling the cache.\<close>

definition MemoryPalaceApp_init :: "DB \<Rightarrow> app" where
  "MemoryPalaceApp_init d =
     \<lparr>db = d, rooms = list_rooms d, curselection = [], practice_gen = None,
      practice_status = Ready, canvas = Blank\<rparr>"

text \<open>
  What one press of a practice button reports: the information box asking to press
  start first, the information box announcing the end of the sequence (both are
  \<^verbatim>\<open>messagebox.showinfo\<close>), or an item put on display.
\<close>

datatype outcome = NoActiveSession | SequenceEnded | Shown item

definition stop_practice :: "app \<Rightarrow> app" where
  "stop_practice a = a\<lparr>practice_gen := None, practice_status := Stopped\<rparr>"

text \<open>
  \<^verbatim>\<open>next_practice\<close>. \<^verbatim>\<open>if not self.practice_gen\<close> holds only for \<^verbatim>\<open>None\<close> (a
  generator object is always truthy). The generator shares \<^verbatim>\<open>self.db\<close>, so its first
  \<^verbatim>\<open>next\<close> queries the database of the application as it is at this call.
\<close>

definition next_practice :: "nat \<Rightarrow> rng \<Rightarrow> app \<Rightarrow> (outcome \<times> app \<times> rng) option" where
  "next_practice now g a =
     (case practice_gen a of
        None \<Rightarrow> Some (NoActiveSession, a, g)
      | Some gen \<Rightarrow>
          (case gen_next (db a) g gen of
             None \<Rightarrow> None
           | Some (StopIteration, gen', g') \<Rightarrow>
               Some (SequenceEnded, stop_practice (a\<lparr>practice_gen := Some gen'\<rparr>), g')
           | Some (Yield it, gen', g') \<Rightarrow>
               Some (Shown it,
                     a\<lparr>practice_gen := Some gen',
                       canvas := PracticeView it,
                       db := log_seen (db a) now (i_id it) '''',
                       practice_status := LastItem (i_name it)\<rparr>,
                     g')))"

text \<open>
  \<^verbatim>\<open>start_practice\<close>. The scope is the room under the first selected listbox index,
  read from the cache \<^verbatim>\<open>self.rooms\<close> (an index beyond the cache raises
  \<^verbatim>\<open>IndexError\<close>), or all rooms when nothing is selected. The last statement is the
  call \<^verbatim>\<open>self.next_practice()\<close>.
\<close>

definition selected_rooms :: "app \<Rightarrow> py_error + int list option" where
  "selected_rooms a =
     (case curselection a of
        [] \<Rightarrow> Inr None
      | idx # _ \<Rightarrow> if idx < length (rooms a) then Inr (Some [r_id (rooms a ! idx)])
                   else Inl IndexError)"

definition start_practice :: "nat \<Rightarrow> rng \<Rightarrow> app \<Rightarrow> (py_error + outcome \<times> app \<times> rng) option" where
  "start_practice now g a =
     (case selected_rooms a of
        Inl e \<Rightarrow> Some (Inl e)
      | Inr rs \<Rightarrow>
          map_option Inr
            (next_practice now g
               (a\<lparr>practice_gen := Some (practice_generator rs True False),
                  practice_status := Practicing\<rparr>)))"

section \<open>Concrete stores and sessions\<close>

text \<open>
  The store of the scenarios: a room \<^verbatim>\<open>R1\<close> with the items \<^verbatim>\<open>A\<close> and \<^verbatim>\<open>B\<close>, as
  \<^verbatim>\<open>add_room\<close> and two calls of \<^verbatim>\<open>add_item\<close> leave a new database.
\<close>

definition room_R1 :: room where
  "room_R1 = \<lparr>r_id = 1, r_name = ''R1'', r_description = ''first room''\<rparr>"

definition item_A :: item where
  "item_A = \<lparr>i_id = 1, i_room_id = Some 1, i_name = ''A'', i_hint = ''hint a'', i_image_path = ''''\<rparr>"

definition item_B :: item where
  "item_B = \<lparr>i_id = 2, i_room_id = Some 1, i_name = ''B'', i_hint = ''hint b'', i_image_path = ''''\<rparr>"

definition db_R1 :: DB where
  "db_R1 = \<lparr>rooms_tbl = [room_R1], items_tbl = [item_A, item_B], progress_tbl = [],
            rooms_seq = 1, items_seq = 2, progress_seq = 0, foreign_keys = False\<rparr>"

text \<open>A source of draws: the \<open>k\<close>-th raw draw is \<open>k\<close>.\<close>

definition draws :: "nat \<Rightarrow> nat" where
  "draws k = k"

definition rng0 :: rng where
  "rng0 = \<lparr>src = draws, pos = 0\<rparr>"

text \<open>The window opened on that store, nothing selected; and the same window after
  \<^verbatim>\<open>start_practice\<close> at time 7 with the draws above.\<close>

definition app_R1 :: app where
  "app_R1 = MemoryPalaceApp_init db_R1"

definition app_R1_started :: app where
  "app_R1_started =
     \<lparr>db = db_R1\<lparr>progress_tbl := [\<lparr>p_id = 1, p_item_id = 2, p_seen_at = 7, p_note = ''''\<rparr>],
                   progress_seq := 1\<rparr>,
      rooms = [room_R1], curselection = [],
      practice_gen = Some (Suspended [item_A, item_B] [item_A] True False),
      practice_status = LastItem ''B'', canvas = PracticeView item_B\<rparr>"

text \<open>
  A window whose cache \<^verbatim>\<open>self.rooms\<close> still lists a room 2 that the store no
  longer holds (the room was added and, after \<^verbatim>\<open>refresh_rooms\<close>, deleted through another
  connection to the database file), with that room selected in the listbox.
\<close>

definition room_gone :: room where
  "room_gone = \<lparr>r_id = 2, r_name = ''R2'', r_description = ''''\<rparr>"

definition app_stale :: app where
  "app_stale =
     \<lparr>db = db_R1\<lparr>rooms_seq := 2\<rparr>, rooms = [room_R1, room_gone], curselection = [1],
      practice_gen = None,
      practice_status = Ready, canvas = Blank\<rparr>"

section \<open>Shuffling, rounds and pulls\<close>

lemma shuffle_from_mset: "i < length x \<Longrightarrow> mset (fst (shuffle_from i x g)) = mset x"
proof (induction i arbitrary: x g)
  case 0
  show ?case by simp
next
  case (Suc i)
  obtain j g' where r: "randbelow (Suc i + 1) g = (j, g')"
    by (cases "randbelow (Suc i + 1) g")
  then have "j < Suc (Suc i)"
    by (auto simp: randbelow_def)
  then have j: "j < length x"
    using Suc.prems by simp
  let ?y = "x[Suc i := x ! j, j := x ! Suc i]"
  have "mset ?y = mset x"
    using mset_swap [of j x "Suc i"] j Suc.prems by simp
  moreover have "mset (fst (shuffle_from i ?y g')) = mset ?y"
    using Suc.prems by (intro Suc.IH) simp
  ultimately show ?case
    using r by simp
qed

lemma shuffle_mset: "mset (fst (shuffle x g)) = mset x"
proof (cases x)
  case Nil
  then show ?thesis by (simp add: shuffle_def)
next
  case (Cons a as)
  then show ?thesis by (simp add: shuffle_def shuffle_from_mset)
qed

lemma new_round_mset: "mset (fst (new_round its sh g)) = mset its"
  by (simp add: new_round_def shuffle_mset)

lemma new_round_length: "length (fst (new_round its sh g)) = length its"
  using new_round_mset [of its sh g] by (metis size_mset)

lemma new_round_unshuffled: "new_round its False g = (its, g)"
  by (simp add: new_round_def)

lemma resume_Cons:
  "resume its sh rp (it # rest) g = Some (Yield it, Suspended its rest sh rp, g)"
  by (subst resume.simps) simp

lemma resume_Nil_stop: "resume its sh False [] g = Some (StopIteration, Closed, g)"
  by (subst resume.simps) simp

lemma resume_Nil_repeat:
  "resume its sh True [] g = resume its sh True (fst (new_round its sh g)) (snd (new_round its sh g))"
  by (subst resume.simps) (simp add: case_prod_beta)

lemma pull_Suspended:
  "pull (length sq) d g (Suspended its sq sh rp) = Some (sq, Suspended its [] sh rp, g)"
  by (induction sq) (simp_all add: gen_next_def resume_Cons)

lemma pull_add:
  "pull m d g gen = Some (out, gen', g') \<Longrightarrow> length out = m \<Longrightarrow>
   pull (m + n) d g gen =
     (case pull n d g' gen' of None \<Rightarrow> None
      | Some (out', gen'', g'') \<Rightarrow> Some (out @ out', gen'', g''))"
proof (induction m arbitrary: g gen out)
  case 0
  then show ?case by (auto split: option.splits)
next
  case (Suc m)
  then show ?case
    by (auto split: option.splits signal.splits prod.splits)
qed


lemma resume_round_start:
  assumes "its \<noteq> []"
  shows "resume its sh rp (fst (new_round its sh g)) g' =
         Some (Yield (hd (fst (new_round its sh g))),
               Suspended its (tl (fst (new_round its sh g))) sh rp, g')"
proof -
  have "fst (new_round its sh g) \<noteq> []"
    using assms new_round_length [of its sh g] by auto
  then obtain it rest where "fst (new_round its sh g) = it # rest"
    by (cases "fst (new_round its sh g)") auto
  then show ?thesis by (simp add: resume_Cons)
qed

lemma gen_next_Created:
  assumes "fetch_items d rs \<noteq> []"
  shows "gen_next d g (Created rs sh rp) =
         Some (Yield (hd (fst (new_round (fetch_items d rs) sh g))),
               Suspended (fetch_items d rs) (tl (fst (new_round (fetch_items d rs) sh g))) sh rp,
               snd (new_round (fetch_items d rs) sh g))"
  using assms resume_round_start [OF assms, of sh rp g "snd (new_round (fetch_items d rs) sh g)"]
  by (simp add: gen_next_def case_prod_beta Let_def)

lemma gen_next_round_end:
  assumes "its \<noteq> []"
  shows "gen_next d g (Suspended its [] sh True) =
         Some (Yield (hd (fst (new_round its sh g))),
               Suspended its (tl (fst (new_round its sh g))) sh True,
               snd (new_round its sh g))"
  using resume_round_start [OF assms, of sh True g "snd (new_round its sh g)"]
  by (simp add: gen_next_def resume_Nil_repeat)

lemma pull_round:
  assumes "its \<noteq> []"
    and "gen_next d g gen =
         Some (Yield (hd (fst (new_round its sh g))),
               Suspended its (tl (fst (new_round its sh g))) sh rp,
               snd (new_round its sh g))"
  shows "pull (length its) d g gen =
         Some (fst (new_round its sh g), Suspended its [] sh rp, snd (new_round its sh g))"
proof -
  let ?sq = "fst (new_round its sh g)"
  have ne: "?sq \<noteq> []"
    using assms(1) new_round_length [of its sh g] by auto
  then have "length ?sq = Suc (length (tl ?sq))"
    by (cases ?sq) simp_all
  then have len: "length its = Suc (length (tl ?sq))"
    by (simp only: new_round_length)
  have "pull (Suc (length (tl ?sq))) d g gen =
        Some (hd ?sq # tl ?sq, Suspended its [] sh rp, snd (new_round its sh g))"
    using assms(2) by (simp add: pull_Suspended del: length_tl)
  then show ?thesis
    using ne by (simp add: len del: length_tl)
qed

lemma pull_first_round:
  assumes "fetch_items d rs \<noteq> []"
  shows "pull (length (fetch_items d rs)) d g (Created rs sh rp) =
         Some (fst (new_round (fetch_items d rs) sh g), Suspended (fetch_items d rs) [] sh rp,
               snd (new_round (fetch_items d rs) sh g))"
  by (rule pull_round [OF assms gen_next_Created [OF assms]])

lemma pull_next_round:
  assumes "its \<noteq> []"
  shows "pull (length its) d g (Suspended its [] sh True) =
         Some (fst (new_round its sh g), Suspended its [] sh True, snd (new_round its sh g))"
  by (rule pull_round [OF assms gen_next_round_end [OF assms]])

lemma pull_blocks:
  assumes "fetch_items d rs \<noteq> []"
  shows "\<exists>out g'. pull (Suc k * length (fetch_items d rs)) d g (Created rs sh True) =
             Some (out, Suspended (fetch_items d rs) [] sh True, g')
           \<and> length out = Suc k * length (fetch_items d rs)
           \<and> mset (take (length (fetch_items d rs)) (drop (k * length (fetch_items d rs)) out))
               = mset (fetch_items d rs)"
proof (induction k)
  case 0
  show ?case
    using pull_first_round [OF assms, of g sh True]
    by (simp add: new_round_length new_round_mset)
next
  case (Suc k)
  let ?its = "fetch_items d rs"
  let ?n = "length ?its"
  from Suc obtain out g' where
    p: "pull (Suc k * ?n) d g (Created rs sh True) = Some (out, Suspended ?its [] sh True, g')"
    and l: "length out = Suc k * ?n"
    by blast
  let ?blk = "fst (new_round ?its sh g')"
  have e: "Suc (Suc k) * ?n = Suc k * ?n + ?n" by simp
  have "pull (Suc k * ?n + ?n) d g (Created rs sh True) =
        Some (out @ ?blk, Suspended ?its [] sh True, snd (new_round ?its sh g'))"
    using pull_add [OF p l, of ?n] pull_next_round [OF assms, of d g' sh] by simp
  then have "pull (Suc (Suc k) * ?n) d g (Created rs sh True) =
        Some (out @ ?blk, Suspended ?its [] sh True, snd (new_round ?its sh g'))"
    by (simp only: e)
  moreover have "length (out @ ?blk) = Suc (Suc k) * ?n"
    using l by (simp add: new_round_length)
  moreover have "take ?n (drop (Suc k * ?n) (out @ ?blk)) = ?blk"
    using l by (simp add: new_round_length)
  ultimately show ?case
    using new_round_mset [of ?its sh g'] by metis
qed

lemma consume_acc_Suspended:
  "consume_acc d acc g (Suspended its sq sh False) = Some (rev acc @ sq, g)"
proof (induction sq arbitrary: acc)
  case Nil
  show ?case by (subst consume_acc.simps) (simp add: gen_next_def resume_Nil_stop)
next
  case (Cons it rest)
  show ?case by (subst consume_acc.simps) (simp add: gen_next_def resume_Cons Cons.IH)
qed

lemma consume_Created:
  "consume d g (Created rs sh False) = Some (new_round (fetch_items d rs) sh g)"
proof (cases "fetch_items d rs = []")
  case True
  then show ?thesis
    unfolding consume_def
    by (subst consume_acc.simps) (simp add: gen_next_def new_round_def shuffle_def)
next
  case False
  have ne: "fst (new_round (fetch_items d rs) sh g) \<noteq> []"
    using False new_round_length [of "fetch_items d rs" sh g] by auto
  show ?thesis
    unfolding consume_def
    using ne
    by (subst consume_acc.simps)
       (simp add: gen_next_Created [OF False] consume_acc_Suspended)
qed

section \<open>Properties of the generator\<close>

lemma fetch_items_distinct:
  "distinct (map i_id (items_tbl d)) \<Longrightarrow> distinct (map i_id (fetch_items d rs))"
  by (auto simp: fetch_items_def distinct_map_filter split: option.splits list.splits)

text \<open>
  Claim C1. With \<^verbatim>\<open>repeat=False\<close>, consuming the generator to exhaustion returns
  (it does not run forever), the output has exactly as many elements as the selected
  item set, it is a rearrangement of that set, and the identifier of every selected
  item occurs exactly once in it; for \<^verbatim>\<open>shuffle\<close> true and false alike (\<open>sh\<close> is
  arbitrary). The hypothesis is the \<^verbatim>\<open>PRIMARY KEY\<close> constraint on \<^verbatim>\<open>items.id\<close>. The
  statement also covers the empty item set, where the output is empty.
\<close>

theorem C1_consume_once:
  assumes "distinct (map i_id (items_tbl d))"
  shows "\<exists>out g'. consume d g (practice_generator rs sh False) = Some (out, g')
           \<and> length out = length (fetch_items d rs)
           \<and> mset out = mset (fetch_items d rs)
           \<and> (\<forall>it \<in> set (fetch_items d rs). count_list (map i_id out) (i_id it) = 1)"
proof -
  let ?its = "fetch_items d rs"
  let ?out = "fst (new_round ?its sh g)"
  have c: "consume d g (practice_generator rs sh False) = Some (?out, snd (new_round ?its sh g))"
    by (simp add: practice_generator_def consume_Created)
  have m: "mset ?out = mset ?its"
    by (rule new_round_mset)
  have "mset (map i_id ?out) = mset (map i_id ?its)"
    using m by (metis mset_map)
  then have dist: "distinct (map i_id ?out)" and s: "set (map i_id ?out) = set (map i_id ?its)"
    using fetch_items_distinct [OF assms, of rs]
    by (metis mset_eq_imp_distinct_iff, metis mset_eq_setD)
  have "count_list (map i_id ?out) x = (if x \<in> set (map i_id ?out) then 1 else 0)" for x
    using dist by (metis count_mset distinct_count_atmost_1)
  then have "\<forall>it \<in> set ?its. count_list (map i_id ?out) (i_id it) = 1"
    unfolding s by simp
  then show ?thesis
    using c m new_round_length [of ?its sh g] by blast
qed

theorem C1_consume_once_witness:
  "distinct (map i_id (items_tbl db_R1))
   \<and> (\<exists>out g'. consume db_R1 rng0 (practice_generator None True False) = Some (out, g')
         \<and> length out = 2 \<and> mset out = mset [item_A, item_B]
         \<and> count_list (map i_id out) 1 = 1 \<and> count_list (map i_id out) 2 = 1)"
proof -
  have h: "distinct (map i_id (items_tbl db_R1))"
    by (simp add: db_R1_def item_A_def item_B_def)
  have f: "fetch_items db_R1 None = [item_A, item_B]"
    by (simp add: fetch_items_def db_R1_def)
  show ?thesis
    using h C1_consume_once [OF h, of rng0 None True]
    by (simp add: f item_A_def item_B_def numeral_2_eq_2)
qed

text \<open>
  Claim C3. With \<^verbatim>\<open>repeat=True\<close> and a non-empty item set of \<open>n\<close> items, any number
  \<open>(k + 1) * n\<close> of pulls all succeed (the generator neither stops nor hangs), and
  the pulls of block \<open>k\<close>, that is pulls \<open>k * n + 1\<close> to \<open>(k + 1) * n\<close>, are a
  rearrangement of the item set; \<open>k = 0\<close> is the first block.
\<close>

theorem C3_repeat_blocks:
  assumes "fetch_items d rs \<noteq> []"
  shows "\<exists>out gen' g'.
           pull (Suc k * length (fetch_items d rs)) d g (practice_generator rs sh True) =
             Some (out, gen', g')
           \<and> length out = Suc k * length (fetch_items d rs)
           \<and> mset (take (length (fetch_items d rs)) (drop (k * length (fetch_items d rs)) out))
               = mset (fetch_items d rs)"
  using pull_blocks [OF assms, of k g sh] unfolding practice_generator_def by blast

theorem C3_repeat_blocks_witness:
  "fetch_items db_R1 None \<noteq> []
   \<and> (\<exists>out gen' g'. pull 6 db_R1 rng0 (practice_generator None True True) = Some (out, gen', g')
         \<and> length out = 6 \<and> mset (take 2 (drop 4 out)) = mset [item_A, item_B])"
proof -
  have f: "fetch_items db_R1 None = [item_A, item_B]"
    by (simp add: fetch_items_def db_R1_def)
  then have h: "fetch_items db_R1 None \<noteq> []"
    by simp
  show ?thesis
    using h C3_repeat_blocks [OF h, of 2 rng0 True]
    by (simp add: f flip: numeral_2_eq_2)
qed

text \<open>
  Claim C8. With \<^verbatim>\<open>repeat=True\<close> and an empty item set, the first \<^verbatim>\<open>next\<close> returns
  with \<^verbatim>\<open>StopIteration\<close> and closes the generator, drawing no random number, and
  consuming the generator returns the empty list: the \<^verbatim>\<open>while True\<close> loop is never
  entered.
\<close>

theorem C8_empty_repeat:
  assumes "fetch_items d rs = []"
  shows "gen_next d g (practice_generator rs sh True) = Some (StopIteration, Closed, g)
         \<and> consume d g (practice_generator rs sh True) = Some ([], g)"
proof -
  have n: "gen_next d g (practice_generator rs sh True) = Some (StopIteration, Closed, g)"
    using assms by (simp add: practice_generator_def gen_next_def)
  have "consume d g (practice_generator rs sh True) = Some ([], g)"
    unfolding consume_def by (subst consume_acc.simps) (simp add: n)
  with n show ?thesis by simp
qed

theorem C8_empty_repeat_witness:
  "fetch_items DB_init None = []
   \<and> gen_next DB_init rng0 (practice_generator None True True) = Some (StopIteration, Closed, rng0)
   \<and> consume DB_init rng0 (practice_generator None True True) = Some ([], rng0)"
proof -
  have h: "fetch_items DB_init None = []"
    by (simp add: fetch_items_def DB_init_def)
  show ?thesis
    using h C8_empty_repeat [OF h, of rng0 True] by simp
qed

lemma fetch_items_empty_scope: "fetch_items d (Some []) = items_tbl d"
  by (simp add: fetch_items_def)

lemma fetch_items_no_scope: "fetch_items d None = items_tbl d"
  by (simp add: fetch_items_def)

lemma pull_round_any:
  "\<exists>out gen' g'. pull (length (fetch_items d rs)) d g (Created rs sh rp) = Some (out, gen', g')
     \<and> mset out = mset (fetch_items d rs)"
proof (cases "fetch_items d rs = []")
  case True
  then show ?thesis by simp
next
  case False
  show ?thesis
    using pull_first_round [OF False, of g sh rp] new_round_mset [of "fetch_items d rs" sh g]
    by simp
qed

lemma consume_empty_scope_R1:
  "consume db_R1 rng0 (practice_generator (Some []) True False) = Some ([item_B, item_A], rng0\<lparr>pos := 1\<rparr>)"
  by (simp add: practice_generator_def consume_Created fetch_items_def db_R1_def new_round_def
      shuffle_def randbelow_def rng0_def draws_def)

text \<open>
  Claim C10. With an empty list of room identifiers as scope the practice sequence
  runs over every row of \<^verbatim>\<open>items\<close>, not over none. Consumed to exhaustion with
  \<^verbatim>\<open>repeat=False\<close>, the generator returns an output that is a rearrangement of the
  whole table, and it is the very output (and use of the random source) of the
  generator built with no scope. For either value of \<^verbatim>\<open>repeat\<close>, as many pulls as
  the table has rows all succeed and are a rearrangement of the table, and the first
  \<^verbatim>\<open>next\<close> of the two generators is identical.
\<close>

theorem C10_empty_scope_is_all:
  "\<exists>out g'.
      consume d g (practice_generator (Some []) sh False) = Some (out, g')
      \<and> consume d g (practice_generator None sh False) = Some (out, g')
      \<and> length out = length (items_tbl d)
      \<and> mset out = mset (items_tbl d)
      \<and> (\<exists>blk gen' g''.
            pull (length (items_tbl d)) d g (practice_generator (Some []) sh rp) =
              Some (blk, gen', g'')
            \<and> mset blk = mset (items_tbl d))
      \<and> gen_next d g (practice_generator (Some []) sh rp) =
            gen_next d g (practice_generator None sh rp)
      \<and> fetch_items d (Some []) = items_tbl d
      \<and> fetch_items d None = items_tbl d"
proof -
  let ?out = "fst (new_round (items_tbl d) sh g)"
  let ?g' = "snd (new_round (items_tbl d) sh g)"
  have c1: "consume d g (practice_generator (Some []) sh False) = Some (?out, ?g')"
    by (simp add: practice_generator_def consume_Created fetch_items_empty_scope)
  have c2: "consume d g (practice_generator None sh False) = Some (?out, ?g')"
    by (simp add: practice_generator_def consume_Created fetch_items_no_scope)
  have l: "length ?out = length (items_tbl d)"
    by (rule new_round_length)
  have m: "mset ?out = mset (items_tbl d)"
    by (rule new_round_mset)
  have p: "\<exists>blk gen' g''.
            pull (length (items_tbl d)) d g (practice_generator (Some []) sh rp) =
              Some (blk, gen', g'')
            \<and> mset blk = mset (items_tbl d)"
    using pull_round_any [of d "Some []" g sh rp]
    by (simp add: fetch_items_empty_scope practice_generator_def)
  have e: "gen_next d g (practice_generator (Some []) sh rp) =
           gen_next d g (practice_generator None sh rp)"
    by (simp add: practice_generator_def gen_next_def fetch_items_empty_scope
        fetch_items_no_scope)
  show ?thesis
    using c1 c2 l m p e fetch_items_empty_scope [of d] fetch_items_no_scope [of d] by blast
qed

theorem C10_empty_scope_is_all_witness:
  "consume db_R1 rng0 (practice_generator (Some []) True False) =
     Some ([item_B, item_A], rng0\<lparr>pos := 1\<rparr>)
   \<and> consume db_R1 rng0 (practice_generator None True False) =
     Some ([item_B, item_A], rng0\<lparr>pos := 1\<rparr>)
   \<and> mset [item_B, item_A] = mset (items_tbl db_R1)"
  using C10_empty_scope_is_all [of db_R1 rng0 True False] consume_empty_scope_R1
  by auto

section \<open>Properties of the practice controls\<close>

lemma idle_initially: "practice_gen (MemoryPalaceApp_init d) = None"
  by (simp add: MemoryPalaceApp_init_def)

lemma idle_after_stop: "practice_gen (stop_practice a) = None"
  by (simp add: stop_practice_def)

lemma idle_after_exhaustion:
  "next_practice now g a = Some (SequenceEnded, a', g') \<Longrightarrow> practice_gen a' = None"
  by (auto simp: next_practice_def stop_practice_def split: option.splits signal.splits)

text \<open>
  Claim C6. The controller is idle when \<^verbatim>\<open>self.practice_gen\<close> is \<^verbatim>\<open>None\<close>: after
  \<^verbatim>\<open>__init__\<close>, after \<^verbatim>\<open>stop_practice\<close> and after an exhausted sequence (the three
  lemmas above). In that state \<^verbatim>\<open>next_practice\<close> reports the condition "no active
  session" and returns the application unchanged, the database with it; no random
  number is drawn.
\<close>

theorem C6_idle_advance:
  assumes "practice_gen a = None"
  shows "next_practice now g a = Some (NoActiveSession, a, g)"
  using assms by (simp add: next_practice_def)

theorem C6_idle_advance_witness:
  "practice_gen (stop_practice app_R1_started) = None
   \<and> next_practice 9 rng0 (stop_practice app_R1_started) =
       Some (NoActiveSession, stop_practice app_R1_started, rng0)
   \<and> db (stop_practice app_R1_started) = db app_R1_started"
proof -
  have h: "practice_gen (stop_practice app_R1_started) = None"
    by (rule idle_after_stop)
  show ?thesis
    using h C6_idle_advance [OF h, of 9 rng0] by (simp add: stop_practice_def)
qed

lemma next_practice_second:
  "next_practice 8 (rng0\<lparr>pos := 1\<rparr>) app_R1_started =
     Some (Shown item_A,
           app_R1_started\<lparr>practice_gen := Some (Suspended [item_A, item_B] [] True False),
                           canvas := PracticeView item_A,
                           db := log_seen (db app_R1_started) 8 1 '''',
                           practice_status := LastItem ''A''\<rparr>,
           rng0\<lparr>pos := 1\<rparr>)"
  by (simp add: next_practice_def app_R1_started_def gen_next_def resume_Cons item_A_def)

text \<open>
  Claim C4. When \<^verbatim>\<open>next_practice\<close> shows an item, the \<^verbatim>\<open>progress\<close> table afterwards
  is the table before with exactly one row appended, and that row carries the
  identifier of the item shown; the other two tables are as before.
\<close>

theorem C4_advance_logs_once:
  assumes "next_practice now g a = Some (Shown it, a', g')"
  shows "progress_tbl (db a') =
           progress_tbl (db a) @
             [\<lparr>p_id = progress_seq (db a) + 1, p_item_id = i_id it, p_seen_at = now, p_note = ''''\<rparr>]
         \<and> rooms_tbl (db a') = rooms_tbl (db a)
         \<and> items_tbl (db a') = items_tbl (db a)"
  using assms
  by (auto simp: next_practice_def log_seen_def Let_def split: option.splits signal.splits)

theorem C4_advance_logs_once_witness:
  "\<exists>a'. next_practice 8 (rng0\<lparr>pos := 1\<rparr>) app_R1_started = Some (Shown item_A, a', rng0\<lparr>pos := 1\<rparr>)
     \<and> progress_tbl (db a') =
         [\<lparr>p_id = 1, p_item_id = 2, p_seen_at = 7, p_note = ''''\<rparr>,
          \<lparr>p_id = 2, p_item_id = 1, p_seen_at = 8, p_note = ''''\<rparr>]"
  using C4_advance_logs_once [OF next_practice_second] next_practice_second
  by (simp add: app_R1_started_def db_R1_def item_A_def)

lemma start_practice_R1:
  "start_practice 7 rng0 app_R1 = Some (Inr (Shown item_B, app_R1_started, rng0\<lparr>pos := 1\<rparr>))"
  by (simp add: start_practice_def selected_rooms_def app_R1_def MemoryPalaceApp_init_def
      practice_generator_def next_practice_def gen_next_def fetch_items_def db_R1_def
      new_round_def shuffle_def randbelow_def rng0_def draws_def resume_Cons
      log_seen_def app_R1_started_def list_rooms_def item_B_def item_A_def)

text \<open>
  Claim C5, as stated, fails: \<^verbatim>\<open>start_practice\<close> ends with the call
  \<^verbatim>\<open>self.next_practice()\<close>. On the store with the items \<^verbatim>\<open>A\<close> and \<^verbatim>\<open>B\<close>, when
  \<^verbatim>\<open>start_practice\<close> returns an item has been pulled and is on the canvas, and the
  \<^verbatim>\<open>progress\<close> table, empty before, holds a row for it.
\<close>

theorem C5_counterexample:
  "start_practice 7 rng0 app_R1 = Some (Inr (Shown item_B, app_R1_started, rng0\<lparr>pos := 1\<rparr>))
   \<and> progress_tbl (db app_R1) = []
   \<and> progress_tbl (db app_R1_started) = [\<lparr>p_id = 1, p_item_id = 2, p_seen_at = 7, p_note = ''''\<rparr>]
   \<and> canvas app_R1 = Blank
   \<and> canvas app_R1_started = PracticeView item_B
   \<and> practice_gen app_R1_started = Some (Suspended [item_A, item_B] [item_A] True False)"
  using start_practice_R1
  by (simp add: app_R1_def MemoryPalaceApp_init_def app_R1_started_def db_R1_def)

text \<open>
  Claim C5, amended. \<^verbatim>\<open>start_practice\<close> builds the generator with
  \<^verbatim>\<open>shuffle=True, repeat=False\<close> over the selected scope and then performs the first
  advance itself. When the scope holds at least one item, on return one item \<open>it\<close> of
  the scope has been pulled and is on the canvas, the generator is suspended with the
  rest of the round still to come (the session is active), and exactly one
  \<^verbatim>\<open>progress\<close> row, referencing \<open>it\<close>, has been appended.
\<close>

theorem C5_start_shows_first_item:
  assumes "selected_rooms a = Inr rs" and "fetch_items (db a) rs \<noteq> []"
  shows "\<exists>it rest a' g'.
           start_practice now g a = Some (Inr (Shown it, a', g'))
           \<and> mset (it # rest) = mset (fetch_items (db a) rs)
           \<and> practice_gen a' = Some (Suspended (fetch_items (db a) rs) rest True False)
           \<and> canvas a' = PracticeView it
           \<and> progress_tbl (db a') =
               progress_tbl (db a) @
                 [\<lparr>p_id = progress_seq (db a) + 1, p_item_id = i_id it, p_seen_at = now,
                   p_note = ''''\<rparr>]"
proof -
  let ?its = "fetch_items (db a) rs"
  let ?sq = "fst (new_round ?its True g)"
  have "length ?sq = length ?its"
    by (rule new_round_length)
  then have ne: "?sq \<noteq> []"
    using assms(2) by auto
  have m: "mset (hd ?sq # tl ?sq) = mset ?its"
    using ne new_round_mset [of ?its True g] by simp
  have "start_practice now g a =
        Some (Inr (Shown (hd ?sq),
                   a\<lparr>practice_gen := Some (Suspended ?its (tl ?sq) True False),
                     practice_status := LastItem (i_name (hd ?sq)),
                     canvas := PracticeView (hd ?sq),
                     db := log_seen (db a) now (i_id (hd ?sq)) ''''\<rparr>,
                   snd (new_round ?its True g)))"
    using assms
    by (simp add: start_practice_def next_practice_def practice_generator_def gen_next_Created)
  then show ?thesis
    using m by (simp add: log_seen_def Let_def)
qed

theorem C5_start_shows_first_item_witness:
  "selected_rooms app_R1 = Inr None \<and> fetch_items (db app_R1) None \<noteq> []
   \<and> (\<exists>it rest a' g'.
         start_practice 7 rng0 app_R1 = Some (Inr (Shown it, a', g'))
         \<and> mset (it # rest) = mset [item_A, item_B]
         \<and> practice_gen a' = Some (Suspended [item_A, item_B] rest True False)
         \<and> canvas a' = PracticeView it
         \<and> progress_tbl (db a') = [\<lparr>p_id = 1, p_item_id = i_id it, p_seen_at = 7, p_note = ''''\<rparr>])"
proof -
  have s: "selected_rooms app_R1 = Inr None"
    by (simp add: selected_rooms_def app_R1_def MemoryPalaceApp_init_def)
  have f: "fetch_items (db app_R1) None = [item_A, item_B]"
    by (simp add: fetch_items_def app_R1_def MemoryPalaceApp_init_def db_R1_def)
  then have n: "fetch_items (db app_R1) None \<noteq> []"
    by simp
  have p: "progress_tbl (db app_R1) = [] \<and> progress_seq (db app_R1) = 0"
    by (simp add: app_R1_def MemoryPalaceApp_init_def db_R1_def)
  show ?thesis
    using s n C5_start_shows_first_item [OF s n, of 7 rng0]
    by (simp add: f p)
qed

text \<open>
  Claim C7, as stated, fails: neither \<^verbatim>\<open>start_practice\<close> nor
  \<^verbatim>\<open>practice_generator\<close> checks that the room exists, and no input error is raised
  anywhere. With room 2 selected and absent from the store, the generator stops at
  its first \<^verbatim>\<open>next\<close> and \<^verbatim>\<open>start_practice\<close> returns normally with the ordinary
  end-of-sequence notice.
\<close>

theorem C7_counterexample:
  "2 \<notin> set (map r_id (rooms_tbl (db app_stale)))
   \<and> selected_rooms app_stale = Inr (Some [2])
   \<and> gen_next (db app_stale) rng0 (practice_generator (Some [2]) True False) =
       Some (StopIteration, Closed, rng0)
   \<and> start_practice 7 rng0 app_stale =
       Some (Inr (SequenceEnded, app_stale\<lparr>practice_gen := None, practice_status := Stopped\<rparr>, rng0))"
  by (simp add: app_stale_def db_R1_def room_R1_def room_gone_def selected_rooms_def
      start_practice_def next_practice_def practice_generator_def gen_next_def fetch_items_def
      item_A_def item_B_def stop_practice_def)

text \<open>
  Claim C7, amended. For a selected room identifier that does not exist in the store
  and that no stored item references, \<^verbatim>\<open>start_practice\<close> raises no error: it reports
  the ordinary end of sequence (as for an existing room without items), draws no random
  number, leaves the database as it was and leaves the controller idle
  (\<^verbatim>\<open>practice_gen\<close> is \<^verbatim>\<open>None\<close>).
\<close>

theorem C7_unknown_room_ends_sequence:
  assumes "selected_rooms a = Inr (Some [r])"
    and "r \<notin> set (map r_id (rooms_tbl (db a)))"
    and "\<forall>it \<in> set (items_tbl (db a)). i_room_id it \<noteq> Some r"
  shows "start_practice now g a =
           Some (Inr (SequenceEnded, a\<lparr>practice_gen := None, practice_status := Stopped\<rparr>, g))"
proof -
  have "filter (\<lambda>it. case i_room_id it of None \<Rightarrow> False | Some x \<Rightarrow> x \<in> set [r])
          (items_tbl (db a)) = []"
    using assms(3) by (auto simp: filter_empty_conv split: option.splits)
  then have "fetch_items (db a) (Some [r]) = []"
    by (simp add: fetch_items_def)
  then show ?thesis
    using assms(1)
    by (simp add: start_practice_def next_practice_def practice_generator_def gen_next_def
        stop_practice_def)
qed

theorem C7_unknown_room_ends_sequence_witness:
  "selected_rooms app_stale = Inr (Some [2])
   \<and> map r_id (rooms_tbl (db app_stale)) = [1]
   \<and> map i_room_id (items_tbl (db app_stale)) = [Some 1, Some 1]
   \<and> start_practice 7 rng0 app_stale =
       Some (Inr (SequenceEnded, app_stale\<lparr>practice_gen := None, practice_status := Stopped\<rparr>, rng0))"
proof -
  have s: "selected_rooms app_stale = Inr (Some [2])"
    by (simp add: selected_rooms_def app_stale_def room_gone_def)
  have r: "2 \<notin> set (map r_id (rooms_tbl (db app_stale)))"
    by (simp add: app_stale_def db_R1_def room_R1_def)
  have i: "\<forall>it \<in> set (items_tbl (db app_stale)). i_room_id it \<noteq> Some 2"
    by (simp add: app_stale_def db_R1_def item_A_def item_B_def)
  show ?thesis
    using s C7_unknown_room_ends_sequence [OF s r i, of 7 rng0]
    by (simp add: app_stale_def db_R1_def room_R1_def item_A_def item_B_def)
qed

section \<open>Properties of the data layer\<close>

lemma sql_eq_None: "sql_eq x None = False"
  by (simp add: sql_eq_def split: option.splits)

lemma sql_eq_Some: "sql_eq x (Some r) = (x = Some r)"
  by (auto simp: sql_eq_def split: option.splits)

text \<open>
  Claim C9, as stated, fails: \<^verbatim>\<open>list_items\<close> has no "all items" case. Called with
  \<^verbatim>\<open>None\<close> on the store holding \<^verbatim>\<open>A\<close> and \<^verbatim>\<open>B\<close> it returns no row.
\<close>

theorem C9_counterexample:
  "items_tbl db_R1 = [item_A, item_B] \<and> list_items db_R1 None = []"
  by (simp add: db_R1_def list_items_def sql_eq_None)

text \<open>
  Claim C9, amended. \<^verbatim>\<open>list_items\<close> takes a room identifier and returns exactly the
  items of that room (each once, as the columns id, name, hint, image path), in
  ascending order of id; when the identifier is absent (\<^verbatim>\<open>None\<close>) it returns no
  items.
\<close>

theorem C9_list_items_of_room:
  "list_items d None = []
   \<and> mset (list_items d (Some r)) =
       mset (map item_columns (filter (\<lambda>it. i_room_id it = Some r) (items_tbl d)))
   \<and> sorted (map fst (list_items d (Some r)))"
proof -
  have c: "map fst (map item_columns xs) = map i_id xs" for xs
    by (simp add: item_columns_def)
  have "list_items d None = []"
    by (simp add: list_items_def sql_eq_None)
  moreover have "mset (list_items d (Some r)) =
       mset (map item_columns (filter (\<lambda>it. i_room_id it = Some r) (items_tbl d)))"
    by (simp add: list_items_def sql_eq_Some)
  moreover have "sorted (map fst (list_items d (Some r)))"
    unfolding list_items_def c by (rule sorted_sort_key)
  ultimately show ?thesis by simp
qed

lemma db_R1_built:
  "\<exists>d1 d2. add_room DB_init ''R1'' ''first room'' = Inr (1, d1)
     \<and> add_item d1 (Some 1) ''A'' ''hint a'' '''' = Inr (1, d2)
     \<and> add_item d2 (Some 1) ''B'' ''hint b'' '''' = Inr (2, db_R1)"
  by (simp add: add_room_def add_item_def DB_init_def db_R1_def room_R1_def item_A_def item_B_def)

lemma delete_room_cascades_if_enforced:
  "foreign_keys d \<Longrightarrow> \<forall>it \<in> set (items_tbl (delete_room d r)). i_room_id it \<noteq> Some r"
  by (simp add: delete_room_def)

text \<open>
  Claim C2 does not hold of the code. The schema declares
  \<^verbatim>\<open>FOREIGN KEY(room_id) REFERENCES rooms(id) ON DELETE CASCADE\<close>, and with enforcement
  on the deletion would cascade (the lemma above); but the connection is opened
  without \<^verbatim>\<open>PRAGMA foreign_keys = ON\<close>. On the store built by \<^verbatim>\<open>add_room\<close> and two
  \<^verbatim>\<open>add_item\<close> calls, deleting room 1 empties \<^verbatim>\<open>rooms\<close> and leaves both items, each
  still referencing room 1; they are still selected by the unscoped query of
  \<^verbatim>\<open>practice_generator\<close> and by \<^verbatim>\<open>list_items\<close> for room 1.
\<close>

theorem C2_delete_room_leaves_items:
  "foreign_keys db_R1 = False
   \<and> rooms_tbl (delete_room db_R1 1) = []
   \<and> items_tbl (delete_room db_R1 1) = [item_A, item_B]
   \<and> i_room_id item_A = Some 1 \<and> i_room_id item_B = Some 1
   \<and> fetch_items (delete_room db_R1 1) None = [item_A, item_B]
   \<and> list_items (delete_room db_R1 1) (Some 1) = [item_columns item_A, item_columns item_B]"
  by (simp add: delete_room_def db_R1_def room_R1_def fetch_items_def list_items_def
      sql_eq_Some item_A_def item_B_def)

end
